theory Spec2Isabelle
  imports Main
begin

section \<open>Python values\<close>

text \<open>
  The module \<^verbatim>\<open>resources/basemode.py\<close> is Python 2 (it calls the builtin
  \<^verbatim>\<open>unicode\<close>) and decides what to do by looking at the run-time type of its
  arguments (\<^verbatim>\<open>type(target) == list\<close>, \<^verbatim>\<open>type(data) == dict\<close>,
  \<^verbatim>\<open>type(data) == str\<close>). The values it can be handed are therefore modelled
  by one datatype. \<open>PyStr\<close> is the byte string type \<^verbatim>\<open>str\<close>, \<open>PyUnicode\<close> the
  text type \<^verbatim>\<open>unicode\<close> (a list of code points), \<open>PyFunc\<close> an opaque callable
  (a menu action), and \<open>PyDict\<close> lists the items of a dictionary, whose keys are
  pairwise distinct.
\<close>

datatype pyval =
    PyNone
  | PyBool bool
  | PyInt int
  | PyStr string
  | PyUnicode "nat list"
  | PyFunc nat
  | PyTuple "pyval list"
  | PyList "pyval list"
  | PyDict "(pyval \<times> pyval) list"

text \<open>
  The exceptions of the model. The first four are the Python exceptions the code can
  raise. The last two are the errors named in the specification's taxonomy; no
  definition below constructs them.
\<close>

datatype py_error =
    TypeError
  | ValueError
  | AttributeError
  | UnicodeDecodeError
  | MalformedMenuSpec
  | UnsupportedInputType

text \<open>Truth value testing, as \<^verbatim>\<open>if x:\<close> does it.\<close>

fun truthy :: "pyval \<Rightarrow> bool" where
  "truthy PyNone = False"
| "truthy (PyBool b) = b"
| "truthy (PyInt n) = (n \<noteq> 0)"
| "truthy (PyStr s) = (s \<noteq> [])"
| "truthy (PyUnicode u) = (u \<noteq> [])"
| "truthy (PyFunc f) = True"
| "truthy (PyTuple xs) = (xs \<noteq> [])"
| "truthy (PyList xs) = (xs \<noteq> [])"
| "truthy (PyDict kvs) = (kvs \<noteq> [])"

text \<open>\<^verbatim>\<open>type(v) == list\<close>, \<^verbatim>\<open>type(v) == dict\<close>.\<close>

fun is_list :: "pyval \<Rightarrow> bool" where
  "is_list (PyList xs) = True"
| "is_list v = False"

fun is_dict :: "pyval \<Rightarrow> bool" where
  "is_dict (PyDict kvs) = True"
| "is_dict v = False"

text \<open>
  Iteration (\<^verbatim>\<open>for x in v\<close>): the elements of a list or tuple, the characters of a
  string, the keys of a dictionary; any other value is not iterable.
\<close>

fun py_iter :: "pyval \<Rightarrow> py_error + pyval list" where
  "py_iter (PyList xs) = Inr xs"
| "py_iter (PyTuple xs) = Inr xs"
| "py_iter (PyStr s) = Inr (map (\<lambda>c. PyStr [c]) s)"
| "py_iter (PyUnicode u) = Inr (map (\<lambda>c. PyUnicode [c]) u)"
| "py_iter (PyDict kvs) = Inr (map fst kvs)"
| "py_iter v = Inl TypeError"

text \<open>
  Unpacking into two names (\<^verbatim>\<open>text, target = v\<close>): \<open>TypeError\<close> when \<open>v\<close> is not
  iterable, \<open>ValueError\<close> when it does not hold exactly two values.
\<close>

definition unpack2 :: "pyval \<Rightarrow> py_error + pyval \<times> pyval" where
  "unpack2 v =
     (case py_iter v of
        Inl err \<Rightarrow> Inl err
      | Inr [a, b] \<Rightarrow> Inr (a, b)
      | Inr _ \<Rightarrow> Inl ValueError)"

section \<open>Menu nodes\<close>

text \<open>
  Modelled from the spec: the classes \<^verbatim>\<open>RadioMenuItem\<close>, \<^verbatim>\<open>RadioSubmenu\<close> and
  \<^verbatim>\<open>RadioMenuMode\<close> of \<^verbatim>\<open>resources/menubase.py\<close>, which the module imports.
  An Item is a leaf with a label and an action; a Submenu has a label and an ordered
  sequence of owned children; the Root is the top-level container and is not a Submenu.
  The action of an Item is either the target given in the menu specification or the
  synthesized navigation to the parent. A node is owned by exactly one parent, so the
  object graph is a tree, and the parent of a node is the node that holds it.
\<close>

datatype action = Target pyval | GoToParent

datatype node =
    RadioMenuItem pyval action
  | RadioSubmenu pyval "node list"
  | RadioMenuMode "node list"

text \<open>
  Modelled from the spec: \<^verbatim>\<open>isinstance(parent, RadioSubmenu)\<close>, which depends on
  the class hierarchy of \<^verbatim>\<open>menubase.py\<close>; the Root is not a Submenu.
\<close>

fun isinstance_RadioSubmenu :: "node \<Rightarrow> bool" where
  "isinstance_RadioSubmenu (RadioSubmenu t cs) = True"
| "isinstance_RadioSubmenu n = False"

fun menu_items :: "node \<Rightarrow> node list" where
  "menu_items (RadioMenuItem t a) = []"
| "menu_items (RadioSubmenu t cs) = cs"
| "menu_items (RadioMenuMode cs) = cs"

text \<open>
  Modelled from the spec: \<^verbatim>\<open>add_item\<close> of \<^verbatim>\<open>menubase.py\<close> appends a child to a
  container, after the children it already has. An Item has no such method.
\<close>

fun add_item :: "node \<Rightarrow> node \<Rightarrow> py_error + node" where
  "add_item (RadioSubmenu t cs) c = Inr (RadioSubmenu t (cs @ [c]))"
| "add_item (RadioMenuMode cs) c = Inr (RadioMenuMode (cs @ [c]))"
| "add_item (RadioMenuItem t a) c = Inl AttributeError"

text \<open>
  Modelled from the spec: \<^verbatim>\<open>add_back_item\<close> of \<^verbatim>\<open>menubase.py\<close> appends one Item
  labelled "Back" whose action navigates to the parent of the node it is added to.
\<close>

definition back_item :: node where
  "back_item = RadioMenuItem (PyStr ''Back'') GoToParent"

definition add_back_item :: "node \<Rightarrow> py_error + node" where
  "add_back_item n = add_item n back_item"

fun is_back :: "node \<Rightarrow> bool" where
  "is_back (RadioMenuItem t GoToParent) = True"
| "is_back n = False"

section \<open>The menu tree builder\<close>

text \<open>
  \<^verbatim>\<open>_walk_menu(self, menu, parent)\<close>. \<open>walk_items\<close> is the \<^verbatim>\<open>for\<close> loop over the
  entries that are left, \<open>parent\<close> the container as mutated so far; \<open>walk_menu\<close> runs
  the loop and then adds the "Back" item to a \<^verbatim>\<open>RadioSubmenu\<close>. An exception leaves
  the loop at once.
\<close>

function walk_menu :: "pyval \<Rightarrow> node \<Rightarrow> py_error + node"
  and walk_items :: "pyval list \<Rightarrow> node \<Rightarrow> py_error + node" where
  "walk_menu menu parent =
     (case py_iter menu of
        Inl err \<Rightarrow> Inl err
      | Inr entries \<Rightarrow>
          (case walk_items entries parent of
             Inl err \<Rightarrow> Inl err
           | Inr parent' \<Rightarrow>
               if isinstance_RadioSubmenu parent' then add_back_item parent'
               else Inr parent'))"
| "walk_items [] parent = Inr parent"
| "walk_items (entry # entries) parent =
     (case unpack2 entry of
        Inl err \<Rightarrow> Inl err
      | Inr (label, target) \<Rightarrow>
          if is_list target then
            (case walk_menu target (RadioSubmenu label []) of
               Inl err \<Rightarrow> Inl err
             | Inr submenu \<Rightarrow>
                 (case add_item parent submenu of
                    Inl err \<Rightarrow> Inl err
                  | Inr parent' \<Rightarrow> walk_items entries parent'))
          else
            (case add_item parent (RadioMenuItem label (Target target)) of
               Inl err \<Rightarrow> Inl err
             | Inr parent' \<Rightarrow> walk_items entries parent'))"
  by pat_completeness auto

text \<open>
  The recursion ends because a nested list is a proper part of the entry it was
  unpacked from, and the entries are parts of the menu they were read from.
\<close>

termination
proof (relation "measures
      [\<lambda>x. case x of Inl (menu, parent) \<Rightarrow> size menu + 1
                 | Inr (entries, parent) \<Rightarrow> sum_list (map size entries),
       \<lambda>x. case x of Inl (menu, parent) \<Rightarrow> 0
                 | Inr (entries, parent) \<Rightarrow> length entries]",
    goal_cases)
  case 1
  show ?case by simp
next
  case (2 menu parent entries)
  have elems: "sum_list (map size xs) \<le> size_list size xs" for xs :: "pyval list"
    by (induction xs) auto
  have keys: "sum_list (map (\<lambda>kv. size (fst kv)) kvs) \<le> size_list (size_prod size size) kvs"
    for kvs :: "(pyval \<times> pyval) list"
    by (induction kvs) auto
  have "sum_list (map size entries) \<le> size menu"
  proof (cases menu)
    case (PyList ys)
    with 2 show ?thesis using elems [of ys] by auto
  next
    case (PyTuple ys)
    with 2 show ?thesis using elems [of ys] by auto
  next
    case (PyDict kvs)
    with 2 show ?thesis using keys [of kvs] by (auto simp: comp_def)
  qed (use 2 in \<open>auto simp: comp_def\<close>)
  then show ?case by simp
next
  case (3 entry entries parent b label target)
  then obtain xs where xs: "py_iter entry = Inr xs" "xs = [label, target]"
    by (auto simp: unpack2_def split: sum.splits list.splits)
  have "size target + 1 < size entry"
  proof (cases entry)
    case (PyStr s)
    with xs 3 show ?thesis by (cases s) auto
  next
    case (PyUnicode u)
    with xs 3 show ?thesis by (cases u) auto
  next
    case (PyDict kvs)
    with xs show ?thesis by (auto simp: map_eq_Cons_conv)
  qed (use xs in auto)
  then show ?case by simp
next
  case 4
  then show ?case by auto
next
  case 5
  then show ?case by auto
qed

section \<open>The mode object\<close>

text \<open>
  The GPIO collaborator (a \<^verbatim>\<open>pigpio.pi\<close> instance) is external. It is modelled by
  the calls made on it, oldest first; \<open>OUTPUT\<close> is \<^verbatim>\<open>pigpio.OUTPUT\<close>.
\<close>

datatype gpio_mode = INPUT | OUTPUT

datatype gpio_call = SetMode pyval gpio_mode | Write pyval int

text \<open>
  The attributes of a \<^verbatim>\<open>RadioBaseMode\<close> instance. \<open>pi\<close> is \<open>None\<close> when no
  \<^verbatim>\<open>pigpio.pi\<close> instance was given (an instance is always true in a condition).
  \<open>led_pin\<close> is the Python value given, \<open>PyNone\<close> by default. \<open>menu\<close> is the
  attribute a subclass defines; the base class never assigns it, so it is \<open>None\<close> on
  an instance whose class defines none, and reading it then raises \<open>AttributeError\<close>.
  \<open>modemenu\<close> is unset until \<^verbatim>\<open>build_menu\<close> has run.
\<close>

record radio_mode =
  pi :: "gpio_call list option"
  led_pin :: pyval
  display_q :: "(pyval \<times> pyval) list option"
  menu :: "pyval option"
  modemenu :: "node option"

text \<open>
  \<^verbatim>\<open>__init__(self, pi=None, led_pin=None, display_q=None)\<close>; the first argument
  of the model is the \<^verbatim>\<open>menu\<close> of the subclass.
\<close>

definition init ::
  "pyval option \<Rightarrow> gpio_call list option \<Rightarrow> pyval \<Rightarrow> (pyval \<times> pyval) list option
    \<Rightarrow> radio_mode" where
  "init menu0 pi0 led_pin0 display_q0 =
     \<lparr>pi = (case pi0 of
              None \<Rightarrow> None
            | Some calls \<Rightarrow>
                if truthy led_pin0 then Some (calls @ [SetMode led_pin0 OUTPUT])
                else Some calls),
      led_pin = led_pin0,
      display_q = display_q0,
      menu = menu0,
      modemenu = None\<rparr>"

text \<open>
  \<^verbatim>\<open>_get_menu_items(self)\<close> and \<^verbatim>\<open>build_menu(self)\<close>. The constructor
  \<^verbatim>\<open>RadioMenuMode(self)\<close> belongs to \<^verbatim>\<open>menubase.py\<close>; by the spec it gives a
  Root with no children. An exception in \<^verbatim>\<open>_get_menu_items\<close> leaves \<open>modemenu\<close>
  unassigned.
\<close>

definition get_menu_items :: "radio_mode \<Rightarrow> py_error + node" where
  "get_menu_items m =
     (let base = RadioMenuMode []
      in case menu m of
           None \<Rightarrow> Inl AttributeError
         | Some spec \<Rightarrow> if truthy spec then walk_menu spec base else Inr base)"

definition build_menu :: "radio_mode \<Rightarrow> py_error + radio_mode" where
  "build_menu m =
     (case get_menu_items m of
        Inl err \<Rightarrow> Inl err
      | Inr root \<Rightarrow> Inr (m\<lparr>modemenu := Some root\<rparr>))"

text \<open>\<^verbatim>\<open>toggle_led(self, state)\<close>; \<open>int_of_state\<close> is \<^verbatim>\<open>int(state)\<close> of a bool.\<close>

definition int_of_state :: "bool \<Rightarrow> int" where
  "int_of_state state = (if state then 1 else 0)"

definition toggle_led :: "bool \<Rightarrow> radio_mode \<Rightarrow> py_error + radio_mode" where
  "toggle_led state m =
     (if truthy (led_pin m) then
        (case pi m of
           None \<Rightarrow> Inl AttributeError
         | Some calls \<Rightarrow> Inr (m\<lparr>pi := Some (calls @ [Write (led_pin m) (int_of_state state)])\<rparr>))
      else Inr m)"

text \<open>A sequence of \<^verbatim>\<open>toggle_led\<close> calls, stopping at the first exception.\<close>

fun toggle_leds :: "bool list \<Rightarrow> radio_mode \<Rightarrow> py_error + radio_mode" where
  "toggle_leds [] m = Inr m"
| "toggle_leds (state # states) m =
     (case toggle_led state m of
        Inl err \<Rightarrow> Inl err
      | Inr m' \<Rightarrow> toggle_leds states m')"

text \<open>The calls the GPIO collaborator has received, and the writes among them.\<close>

definition gpio_calls :: "radio_mode \<Rightarrow> gpio_call list" where
  "gpio_calls m = (case pi m of None \<Rightarrow> [] | Some calls \<Rightarrow> calls)"

fun is_write :: "gpio_call \<Rightarrow> bool" where
  "is_write (Write pin level) = True"
| "is_write (SetMode pin mode) = False"

definition writes :: "radio_mode \<Rightarrow> gpio_call list" where
  "writes m = filter is_write (gpio_calls m)"

section \<open>The accent sanitizer\<close>

text \<open>
  \<^verbatim>\<open>unicode(data)\<close> of a byte string decodes it with the default codec, ASCII, and
  raises on a byte above 127. \<^verbatim>\<open>nfkd_form.encode('ASCII', 'ignore')\<close> drops every
  code point above 127 and returns a byte string.
\<close>

definition is_ascii :: "nat \<Rightarrow> bool" where
  "is_ascii c = (c < 128)"

definition unicode_of_str :: "string \<Rightarrow> py_error + nat list" where
  "unicode_of_str s =
     (if list_all (\<lambda>c. is_ascii (of_char c)) s then Inr (map of_char s)
      else Inl UnicodeDecodeError)"

definition encode_ascii_ignore :: "nat list \<Rightarrow> string" where
  "encode_ascii_ignore u = map char_of (filter is_ascii u)"

text \<open>
  \<^verbatim>\<open>remove_accents(self, data)\<close>. \<^verbatim>\<open>unicodedata.normalize('NFKD', _)\<close> belongs to
  the Python library and is the parameter \<open>nfkd\<close>, a function on code point lists;
  the library raises \<open>TypeError\<close> when its argument is not a \<^verbatim>\<open>unicode\<close> object.
  \<open>remove_accents_items\<close> is the dictionary comprehension, item by item.
\<close>

fun remove_accents :: "(nat list \<Rightarrow> nat list) \<Rightarrow> pyval \<Rightarrow> py_error + pyval"
  and remove_accents_items ::
    "(nat list \<Rightarrow> nat list) \<Rightarrow> (pyval \<times> pyval) list \<Rightarrow> py_error + (pyval \<times> pyval) list" where
  "remove_accents nfkd (PyDict kvs) =
     (case remove_accents_items nfkd kvs of
        Inl err \<Rightarrow> Inl err
      | Inr kvs' \<Rightarrow> Inr (PyDict kvs'))"
| "remove_accents nfkd (PyStr s) =
     (case unicode_of_str s of
        Inl err \<Rightarrow> Inl err
      | Inr u \<Rightarrow> Inr (PyStr (encode_ascii_ignore (nfkd u))))"
| "remove_accents nfkd (PyUnicode u) = Inr (PyStr (encode_ascii_ignore (nfkd u)))"
| "remove_accents nfkd PyNone = Inl TypeError"
| "remove_accents nfkd (PyBool b) = Inl TypeError"
| "remove_accents nfkd (PyInt n) = Inl TypeError"
| "remove_accents nfkd (PyFunc f) = Inl TypeError"
| "remove_accents nfkd (PyTuple xs) = Inl TypeError"
| "remove_accents nfkd (PyList xs) = Inl TypeError"
| "remove_accents_items nfkd [] = Inr []"
| "remove_accents_items nfkd ((key, v) # kvs) =
     (case remove_accents nfkd v of
        Inl err \<Rightarrow> Inl err
      | Inr v' \<Rightarrow>
          (case remove_accents_items nfkd kvs of
             Inl err \<Rightarrow> Inl err
           | Inr kvs' \<Rightarrow> Inr ((key, v') # kvs')))"

section \<open>The specification's view of a menu\<close>

text \<open>
  The specification's MenuSpec, following its words: an ordered sequence of pairs of a
  label (text) and a target, the target being an action or a nested MenuSpec. A
  \<open>Leaf\<close> carries the action, a \<open>Branch\<close> the nested sequence. \<open>py_of_entry\<close> is the
  Python literal a mode writes for an entry, a tuple \<^verbatim>\<open>(label, target)\<close> with a
  nested \<^verbatim>\<open>list\<close> for a submenu. An entry is well formed when no action is itself
  a list, since the builder tells a submenu from an action by that test.
\<close>

datatype menu_entry = Leaf string pyval | Branch string "menu_entry list"

fun py_of_entry :: "menu_entry \<Rightarrow> pyval" where
  "py_of_entry (Leaf label a) = PyTuple [PyStr label, a]"
| "py_of_entry (Branch label es) = PyTuple [PyStr label, PyList (map py_of_entry es)]"

fun wf_entry :: "menu_entry \<Rightarrow> bool" where
  "wf_entry (Leaf label a) = (\<not> is_list a)"
| "wf_entry (Branch label es) = list_all wf_entry es"

text \<open>
  The node the specification prescribes for an entry: an Item for an action; for a
  nested sequence a Submenu whose children are the nodes of its entries, in their
  order, followed by the one synthesized "Back" item.
\<close>

fun spec_node :: "menu_entry \<Rightarrow> node" where
  "spec_node (Leaf label a) = RadioMenuItem (PyStr label) (Target a)"
| "spec_node (Branch label es) = RadioSubmenu (PyStr label) (map spec_node es @ [back_item])"

text \<open>A container with further children after those it has; an Item is no container.\<close>

fun append_items :: "node \<Rightarrow> node list \<Rightarrow> node" where
  "append_items (RadioSubmenu t cs) ns = RadioSubmenu t (cs @ ns)"
| "append_items (RadioMenuMode cs) ns = RadioMenuMode (cs @ ns)"
| "append_items (RadioMenuItem t a) ns = RadioMenuItem t a"

fun is_container :: "node \<Rightarrow> bool" where
  "is_container (RadioMenuItem t a) = False"
| "is_container n = True"

text \<open>
  Modelled from the spec: the navigation collaborator, which is not part of this module
  and reads the tree, invokes Item actions and uses the parent links for "Back". A
  position in the tree is the list of child indices that leads to it from the root, so
  the parent of the node at \<open>p\<close> is the node at \<open>butlast p\<close>. \<open>activate root p i\<close> is
  what selecting entry \<open>i\<close> of the menu at \<open>p\<close> does: it hands out the action of an
  Item, opens a Submenu, and for the synthesized item opens the parent of the menu that
  holds it.
\<close>

fun node_at :: "node \<Rightarrow> nat list \<Rightarrow> node option" where
  "node_at n [] = Some n"
| "node_at n (i # p) =
     (if i < length (menu_items n) then node_at (menu_items n ! i) p else None)"

datatype outcome = Invoke pyval | Open "nat list" | Nothing

definition activate :: "node \<Rightarrow> nat list \<Rightarrow> nat \<Rightarrow> outcome" where
  "activate root p i =
     (case node_at root (p @ [i]) of
        Some (RadioMenuItem label (Target a)) \<Rightarrow> Invoke a
      | Some (RadioMenuItem label GoToParent) \<Rightarrow> Open (butlast p)
      | Some (RadioSubmenu label cs) \<Rightarrow> Open (p @ [i])
      | _ \<Rightarrow> Nothing)"

section \<open>The specification's view of the sanitizer\<close>

text \<open>
  The specification's input of the sanitizer: text, or a mapping from keys to such
  inputs. \<open>spec_sanitize\<close> follows its words: text is normalised to NFKD and every code
  point outside the 7-bit range is dropped; a mapping is sanitized value by value, keys
  and structure kept. \<open>py_unicode\<close> is the input as a Python value with \<^verbatim>\<open>unicode\<close>
  text, \<open>py_str\<close> the same value with byte strings, which is how the code returns it.
\<close>

datatype display_data = Text "nat list" | Mapping "(pyval \<times> display_data) list"

fun spec_sanitize :: "(nat list \<Rightarrow> nat list) \<Rightarrow> display_data \<Rightarrow> display_data" where
  "spec_sanitize nfkd (Text u) = Text (filter is_ascii (nfkd u))"
| "spec_sanitize nfkd (Mapping kvs) =
     Mapping (map (\<lambda>(key, v). (key, spec_sanitize nfkd v)) kvs)"

fun py_unicode :: "display_data \<Rightarrow> pyval" where
  "py_unicode (Text u) = PyUnicode u"
| "py_unicode (Mapping kvs) = PyDict (map (\<lambda>(key, v). (key, py_unicode v)) kvs)"

fun py_str :: "display_data \<Rightarrow> pyval" where
  "py_str (Text u) = PyStr (map char_of u)"
| "py_str (Mapping kvs) = PyDict (map (\<lambda>(key, v). (key, py_str v)) kvs)"

fun all_ascii :: "display_data \<Rightarrow> bool" where
  "all_ascii (Text u) = list_all is_ascii u"
| "all_ascii (Mapping kvs) = list_all (\<lambda>(key, v). all_ascii v) kvs"

fun mapping_keys :: "display_data \<Rightarrow> pyval list" where
  "mapping_keys (Text u) = []"
| "mapping_keys (Mapping kvs) = map fst kvs"

text \<open>
  Python values that are text, and those that are text or a mapping whose values are,
  at any depth.
\<close>

fun is_text :: "pyval \<Rightarrow> bool" where
  "is_text (PyStr s) = True"
| "is_text (PyUnicode u) = True"
| "is_text v = False"

fun valid_data :: "pyval \<Rightarrow> bool" where
  "valid_data (PyStr s) = True"
| "valid_data (PyUnicode u) = True"
| "valid_data (PyDict kvs) = list_all (\<lambda>(key, v). valid_data v) kvs"
| "valid_data v = False"

text \<open>
  A normaliser to evaluate with: it decomposes U+00E9 and U+00E0, the accented letters
  of the specification's examples, as NFKD does, and leaves every other code point as
  it is. It stands in for the library's table in concrete instances only.
\<close>

definition decompose_sample :: "nat \<Rightarrow> nat list" where
  "decompose_sample c =
     (if c = 0xE9 then [0x65, 0x301] else if c = 0xE0 then [0x61, 0x300] else [c])"

definition nfkd_sample :: "nat list \<Rightarrow> nat list" where
  "nfkd_sample u = concat (map decompose_sample u)"

section \<open>The builder on well-formed specifications\<close>

lemma add_item_append_items:
  "is_container parent \<Longrightarrow> add_item parent c = Inr (append_items parent [c])"
  by (cases parent) auto

lemma append_items_append_items:
  "append_items (append_items parent xs) ys = append_items parent (xs @ ys)"
  by (cases parent) auto

lemma is_container_append_items: "is_container (append_items parent xs) = is_container parent"
  by (cases parent) auto

lemma append_items_Nil: "append_items parent [] = parent"
  by (cases parent) auto

text \<open>
  The loop over a run of entries, given that each of them alone extends the container
  by its node.
\<close>

lemma walk_items_entries:
  assumes step: "\<And>e rest parent. e \<in> set es \<Longrightarrow> is_container parent \<Longrightarrow>
      walk_items (py_of_entry e # rest) parent = walk_items rest (append_items parent [spec_node e])"
    and "is_container parent"
  shows "walk_items (map py_of_entry es @ rest) parent =
         walk_items rest (append_items parent (map spec_node es))"
  using assms
proof (induction es arbitrary: parent)
  case Nil
  then show ?case by (simp add: append_items_Nil)
next
  case (Cons e es)
  then show ?case by (simp add: append_items_append_items is_container_append_items)
qed

lemma walk_items_entry:
  "wf_entry e \<Longrightarrow> is_container parent \<Longrightarrow>
   walk_items (py_of_entry e # rest) parent = walk_items rest (append_items parent [spec_node e])"
proof (induction e arbitrary: parent rest)
  case (Leaf label a)
  then show ?case by (simp add: unpack2_def add_item_append_items)
next
  case (Branch label es)
  have "walk_items (map py_of_entry es @ []) (RadioSubmenu (PyStr label) []) =
        walk_items [] (append_items (RadioSubmenu (PyStr label) []) (map spec_node es))"
    using Branch by (intro walk_items_entries) (auto simp: list_all_iff)
  then have "walk_menu (PyList (map py_of_entry es)) (RadioSubmenu (PyStr label) []) =
        Inr (spec_node (Branch label es))"
    by (simp add: add_back_item_def)
  with Branch.prems show ?case by (simp add: unpack2_def add_item_append_items)
qed

lemma walk_items_wf:
  "list_all wf_entry es \<Longrightarrow> is_container parent \<Longrightarrow>
   walk_items (map py_of_entry es) parent = Inr (append_items parent (map spec_node es))"
  using walk_items_entries [of es parent "[]"] walk_items_entry
  by (simp add: list_all_iff)

lemma walk_menu_wf:
  "list_all wf_entry es \<Longrightarrow> is_container parent \<Longrightarrow>
   walk_menu (PyList (map py_of_entry es)) parent =
     Inr (if isinstance_RadioSubmenu parent
          then append_items parent (map spec_node es @ [back_item])
          else append_items parent (map spec_node es))"
  by (cases parent) (simp_all add: walk_items_wf add_back_item_def)

lemma walk_menu_root:
  "list_all wf_entry es \<Longrightarrow>
   walk_menu (PyList (map py_of_entry es)) (RadioMenuMode []) = Inr (RadioMenuMode (map spec_node es))"
  using walk_menu_wf [of es "RadioMenuMode []"] by (simp del: walk_menu.simps)

lemma walk_menu_submenu:
  "list_all wf_entry es \<Longrightarrow>
   walk_menu (PyList (map py_of_entry es)) (RadioSubmenu t []) =
     Inr (RadioSubmenu t (map spec_node es @ [back_item]))"
  using walk_menu_wf [of es "RadioSubmenu t []"] by (simp del: walk_menu.simps)

subsection \<open>The nodes of a built tree\<close>

lemma not_is_back_spec_node: "\<not> is_back (spec_node e)"
  by (cases e) auto

lemma filter_is_back_nodes: "filter is_back (map spec_node es) = []"
  by (induction es) (auto simp: not_is_back_spec_node)

lemma is_back_back_item: "is_back back_item"
  by (simp add: back_item_def)

lemma node_at_append:
  "node_at n (p @ q) = (case node_at n p of None \<Rightarrow> None | Some n' \<Rightarrow> node_at n' q)"
  by (induction p arbitrary: n) auto

lemma node_at_back_item: "node_at back_item p = Some n \<Longrightarrow> n = back_item"
  by (cases p) (auto simp: back_item_def)

text \<open>Below the node of an entry there are nodes of entries and "Back" items only.\<close>

lemma node_at_spec_node:
  "node_at (spec_node e) p = Some n \<Longrightarrow> n = back_item \<or> (\<exists>e'. n = spec_node e')"
proof (induction p arbitrary: e)
  case Nil
  then show ?case by auto
next
  case (Cons i p)
  show ?case
  proof (cases e)
    case (Leaf label a)
    with Cons.prems show ?thesis by simp
  next
    case (Branch label es)
    show ?thesis
    proof (cases "i < length es")
      case True
      with Cons.prems Branch have "node_at (spec_node (es ! i)) p = Some n"
        by (simp add: nth_append)
      then show ?thesis by (rule Cons.IH)
    next
      case False
      with Cons.prems Branch have "node_at back_item p = Some n"
        by (auto simp: nth_append split: if_splits)
      then show ?thesis by (simp add: node_at_back_item)
    qed
  qed
qed

lemma node_at_root_submenu:
  assumes "node_at (RadioMenuMode (map spec_node es)) p = Some (RadioSubmenu label cs)"
  shows "\<exists>sub. cs = map spec_node sub @ [back_item]"
proof (cases p)
  case Nil
  with assms show ?thesis by simp
next
  case (Cons i q)
  with assms have "node_at (spec_node (es ! i)) q = Some (RadioSubmenu label cs)"
    by (simp split: if_splits)
  then have "RadioSubmenu label cs = back_item \<or> (\<exists>e'. RadioSubmenu label cs = spec_node e')"
    by (rule node_at_spec_node)
  then obtain e' where e': "RadioSubmenu label cs = spec_node e'"
    by (auto simp: back_item_def)
  then show ?thesis by (cases e') auto
qed

lemma node_at_parent:
  assumes "node_at root p = Some n" "p \<noteq> []"
  shows "\<exists>parent. node_at root (butlast p) = Some parent \<and> last p < length (menu_items parent)
            \<and> menu_items parent ! last p = n"
proof -
  from assms(2) have "p = butlast p @ [last p]" by simp
  with assms(1) have "node_at root (butlast p @ [last p]) = Some n" by simp
  then show ?thesis
    by (auto simp: node_at_append split: option.splits if_splits)
qed

lemma activate_back:
  assumes "node_at root p = Some (RadioSubmenu label (ds @ [back_item]))"
  shows "activate root p (length ds) = Open (butlast p)"
  using assms by (simp add: activate_def node_at_append back_item_def)

text \<open>
  Whatever the specification, the loop adds no synthesized item to the container it
  fills and leaves its class as it is; only the end of the walk of a Submenu adds one.
\<close>

lemma add_item_class:
  "add_item parent c = Inr p' \<Longrightarrow> isinstance_RadioSubmenu p' = isinstance_RadioSubmenu parent"
  by (cases parent) auto

lemma add_item_backs:
  "add_item parent c = Inr p' \<Longrightarrow> \<not> is_back c \<Longrightarrow>
   filter is_back (menu_items p') = filter is_back (menu_items parent)"
  by (cases parent) auto

lemma walk_items_class:
  "walk_items entries parent = Inr p' \<Longrightarrow>
   isinstance_RadioSubmenu p' = isinstance_RadioSubmenu parent"
proof (induction entries arbitrary: parent)
  case Nil
  then show ?case by simp
next
  case (Cons entry entries)
  from Cons.prems obtain c p1 where
    "add_item parent c = Inr p1" "walk_items entries p1 = Inr p'"
    by (auto split: sum.splits if_splits)
  then show ?case using Cons.IH [of p1] add_item_class [of parent c p1] by simp
qed

lemma walk_menu_submenu_class:
  assumes "walk_menu spec (RadioSubmenu t cs) = Inr n"
  shows "\<not> is_back n"
proof -
  from assms obtain entries p' where
    "walk_items entries (RadioSubmenu t cs) = Inr p'" "add_back_item p' = Inr n"
    using walk_items_class [of _ "RadioSubmenu t cs"]
    by (auto split: sum.splits if_splits)
  then have "isinstance_RadioSubmenu n"
    using walk_items_class [of entries "RadioSubmenu t cs" p'] add_item_class [of p' back_item n]
    by (simp add: add_back_item_def)
  then show ?thesis by (cases n) auto
qed

lemma walk_items_backs:
  "walk_items entries parent = Inr p' \<Longrightarrow>
   filter is_back (menu_items p') = filter is_back (menu_items parent)"
proof (induction entries arbitrary: parent)
  case Nil
  then show ?case by simp
next
  case (Cons entry entries)
  from Cons.prems obtain label target where u: "unpack2 entry = Inr (label, target)"
    by (auto split: sum.splits)
  show ?case
  proof (cases "is_list target")
    case True
    with Cons.prems u obtain submenu p1 where
      sub: "walk_menu target (RadioSubmenu label []) = Inr submenu"
      and add: "add_item parent submenu = Inr p1"
      and rest: "walk_items entries p1 = Inr p'"
      by (auto split: sum.splits)
    from sub have "\<not> is_back submenu" by (rule walk_menu_submenu_class)
    with add have "filter is_back (menu_items p1) = filter is_back (menu_items parent)"
      by (rule add_item_backs)
    with Cons.IH [OF rest] show ?thesis by simp
  next
    case False
    with Cons.prems u obtain p1 where
      add: "add_item parent (RadioMenuItem label (Target target)) = Inr p1"
      and rest: "walk_items entries p1 = Inr p'"
      by (auto split: sum.splits)
    from add have "filter is_back (menu_items p1) = filter is_back (menu_items parent)"
      by (rule add_item_backs) simp
    with Cons.IH [OF rest] show ?thesis by simp
  qed
qed

lemma walk_menu_root_no_back:
  "walk_menu spec (RadioMenuMode cs) = Inr root \<Longrightarrow>
   filter is_back (menu_items root) = filter is_back cs"
  using walk_items_backs [of _ "RadioMenuMode cs"] walk_items_class [of _ "RadioMenuMode cs"]
  by (auto split: sum.splits if_splits)

subsection \<open>The exceptions of the builder\<close>

lemma py_iter_error: "py_iter v = Inl err \<Longrightarrow> err = TypeError"
  by (cases v) auto

lemma unpack2_error: "unpack2 v = Inl err \<Longrightarrow> err = TypeError \<or> err = ValueError"
  by (auto simp: unpack2_def split: sum.splits list.splits dest: py_iter_error)

lemma add_item_error: "add_item parent c = Inl err \<Longrightarrow> err = AttributeError"
  by (cases parent) auto

lemma walk_errors:
  "walk_menu spec parent = Inl err \<Longrightarrow> err \<in> {TypeError, ValueError, AttributeError}"
  "walk_items entries parent = Inl err \<Longrightarrow> err \<in> {TypeError, ValueError, AttributeError}"
proof (induction spec parent and entries parent rule: walk_menu_walk_items.induct)
  case (1 spec parent)
  then show ?case
    by (auto simp: add_back_item_def split: sum.splits if_splits
        dest: py_iter_error add_item_error)
next
  case (2 parent)
  then show ?case by simp
next
  case (3 entry entries parent)
  then show ?case
    by (auto split: sum.splits if_splits prod.splits dest: unpack2_error add_item_error)
qed

lemma walk_items_unpack_error:
  assumes "list_all wf_entry es" "is_container parent" "unpack2 entry = Inl err"
  shows "walk_items (map py_of_entry es @ entry # rest) parent = Inl err"
proof -
  have "walk_items (map py_of_entry es @ entry # rest) parent =
        walk_items (entry # rest) (append_items parent (map spec_node es))"
    using assms(1,2) walk_items_entry by (intro walk_items_entries) (auto simp: list_all_iff)
  with assms(3) show ?thesis by simp
qed

text \<open>
  A mode whose class defines no \<^verbatim>\<open>menu\<close> cannot build one: the attribute lookup
  raises. A falsy \<^verbatim>\<open>menu\<close> gives the empty Root without a walk.
\<close>

lemma get_menu_items_unset: "menu m = None \<Longrightarrow> get_menu_items m = Inl AttributeError"
  by (simp add: get_menu_items_def)

lemma get_menu_items_falsy:
  "menu m = Some spec \<Longrightarrow> \<not> truthy spec \<Longrightarrow> get_menu_items m = Inr (RadioMenuMode [])"
  by (simp add: get_menu_items_def)

section \<open>Claims about the menu tree builder\<close>

text \<open>
  C1. For a well-formed specification, every Submenu of the built tree has as children
  the nodes of its sublist followed by exactly one synthesized "Back" item, which is
  therefore its last child; activating that item opens the position of the Submenu's
  parent, the node that holds the Submenu. The Root gets no such item, and gets none
  from any specification the builder returns from. A Submenu built from an empty
  sublist holds the "Back" item and nothing else.
\<close>

theorem walk_menu_back_item:
  assumes "list_all wf_entry es"
  shows "\<exists>root. walk_menu (PyList (map py_of_entry es)) (RadioMenuMode []) = Inr root
      \<and> filter is_back (menu_items root) = []
      \<and> (\<forall>p label cs. node_at root p = Some (RadioSubmenu label cs) \<longrightarrow>
            (\<exists>sub. cs = map spec_node sub @ [back_item])
          \<and> filter is_back cs = [back_item]
          \<and> last cs = back_item
          \<and> activate root p (length cs - 1) = Open (butlast p)
          \<and> (\<exists>parent. node_at root (butlast p) = Some parent
                \<and> last p < length (menu_items parent)
                \<and> menu_items parent ! last p = RadioSubmenu label cs))
      \<and> walk_menu (PyList (map py_of_entry es)) (RadioSubmenu t []) =
          Inr (RadioSubmenu t (map spec_node es @ [back_item]))
      \<and> walk_menu (PyList []) (RadioSubmenu t []) = Inr (RadioSubmenu t [back_item])
      \<and> (walk_menu spec (RadioMenuMode []) = Inr r \<longrightarrow> filter is_back (menu_items r) = [])"
proof -
  let ?root = "RadioMenuMode (map spec_node es)"
  have built: "walk_menu (PyList (map py_of_entry es)) (RadioMenuMode []) = Inr ?root"
    using assms by (rule walk_menu_root)
  have no_back: "filter is_back (menu_items ?root) = []"
    by (simp add: filter_is_back_nodes)
  have subs: "(\<exists>sub. cs = map spec_node sub @ [back_item])
          \<and> filter is_back cs = [back_item]
          \<and> last cs = back_item
          \<and> activate ?root p (length cs - 1) = Open (butlast p)
          \<and> (\<exists>parent. node_at ?root (butlast p) = Some parent
                \<and> last p < length (menu_items parent)
                \<and> menu_items parent ! last p = RadioSubmenu label cs)"
    if at: "node_at ?root p = Some (RadioSubmenu label cs)" for p label cs
  proof -
    from at obtain sub where cs: "cs = map spec_node sub @ [back_item]"
      using node_at_root_submenu by blast
    have "p \<noteq> []" using at by auto
    with at have parent: "\<exists>parent. node_at ?root (butlast p) = Some parent
                \<and> last p < length (menu_items parent)
                \<and> menu_items parent ! last p = RadioSubmenu label cs"
      by (rule node_at_parent)
    have act: "activate ?root p (length cs - 1) = Open (butlast p)"
      using at activate_back [of ?root p label "map spec_node sub"] by (simp add: cs)
    show ?thesis
      using cs parent act by (auto simp: filter_is_back_nodes is_back_back_item)
  qed
  have sub: "walk_menu (PyList (map py_of_entry es)) (RadioSubmenu t []) =
          Inr (RadioSubmenu t (map spec_node es @ [back_item]))"
    using assms by (rule walk_menu_submenu)
  have empty: "walk_menu (PyList []) (RadioSubmenu t []) = Inr (RadioSubmenu t [back_item])"
    by (simp add: add_back_item_def)
  have any: "filter is_back (menu_items r) = []" if "walk_menu spec (RadioMenuMode []) = Inr r"
    using walk_menu_root_no_back [OF that] by simp
  show ?thesis
    using built no_back subs sub empty any by blast
qed

theorem walk_menu_back_item_witness:
  "list_all wf_entry [Leaf ''Play'' (PyFunc 0), Branch ''Settings'' [Leaf ''Volume'' (PyFunc 1)]]
   \<and> (\<exists>root. walk_menu
          (PyList (map py_of_entry
             [Leaf ''Play'' (PyFunc 0), Branch ''Settings'' [Leaf ''Volume'' (PyFunc 1)]]))
          (RadioMenuMode []) = Inr root
        \<and> filter is_back (menu_items root) = []
        \<and> node_at root [1] =
            Some (RadioSubmenu (PyStr ''Settings'')
                    [RadioMenuItem (PyStr ''Volume'') (Target (PyFunc 1)),
                     RadioMenuItem (PyStr ''Back'') GoToParent])
        \<and> activate root [1] 1 = Open [])"
proof -
  let ?es = "[Leaf ''Play'' (PyFunc 0), Branch ''Settings'' [Leaf ''Volume'' (PyFunc 1)]]"
  have wf: "list_all wf_entry ?es" by simp
  from walk_menu_back_item [OF wf, of "PyStr ''Top''"] obtain root where
    built: "walk_menu (PyList (map py_of_entry ?es)) (RadioMenuMode []) = Inr root"
    and no_back: "filter is_back (menu_items root) = []"
    and subs: "\<And>p label cs. node_at root p = Some (RadioSubmenu label cs) \<Longrightarrow>
        activate root p (length cs - 1) = Open (butlast p)"
    by blast
  have root: "root = RadioMenuMode
      [RadioMenuItem (PyStr ''Play'') (Target (PyFunc 0)),
       RadioSubmenu (PyStr ''Settings'')
         [RadioMenuItem (PyStr ''Volume'') (Target (PyFunc 1)),
          RadioMenuItem (PyStr ''Back'') GoToParent]]"
    using built by (simp add: unpack2_def add_back_item_def back_item_def)
  have at: "node_at root [1] =
      Some (RadioSubmenu (PyStr ''Settings'')
              [RadioMenuItem (PyStr ''Volume'') (Target (PyFunc 1)),
               RadioMenuItem (PyStr ''Back'') GoToParent])"
    by (simp add: root)
  from subs [OF at] have "activate root [1] 1 = Open []" by simp
  with wf built no_back at show ?thesis by blast
qed

text \<open>
  C2. For a well-formed specification the children at every level are the nodes of the
  entries in the order of the entries, child \<open>i\<close> coming from entry \<open>i\<close>, with the
  synthesized "Back" item after all of them in a Submenu. Building from
  \<^verbatim>\<open>[("Play", play_action), ("Settings", [("Volume", vol_action)])]\<close> gives the Root
  with the Item "Play" and the Submenu "Settings", whose children are the Item "Volume"
  and the Item "Back".
\<close>

theorem walk_menu_order:
  assumes "list_all wf_entry es"
  shows "walk_menu (PyList (map py_of_entry es)) (RadioMenuMode []) =
           Inr (RadioMenuMode (map spec_node es))
     \<and> get_menu_items (m\<lparr>menu := Some (PyList (map py_of_entry es))\<rparr>) =
           Inr (RadioMenuMode (map spec_node es))
     \<and> (\<forall>i<length es. menu_items (RadioMenuMode (map spec_node es)) ! i = spec_node (es ! i))
     \<and> walk_menu (PyList (map py_of_entry es)) (RadioSubmenu t []) =
           Inr (RadioSubmenu t (map spec_node es @ [back_item]))
     \<and> get_menu_items
          (m\<lparr>menu := Some (PyList [PyTuple [PyStr ''Play'', PyFunc play_action],
                            PyTuple [PyStr ''Settings'',
                              PyList [PyTuple [PyStr ''Volume'', PyFunc vol_action]]]])\<rparr>) =
           Inr (RadioMenuMode
                 [RadioMenuItem (PyStr ''Play'') (Target (PyFunc play_action)),
                  RadioSubmenu (PyStr ''Settings'')
                    [RadioMenuItem (PyStr ''Volume'') (Target (PyFunc vol_action)),
                     RadioMenuItem (PyStr ''Back'') GoToParent]])"
proof -
  have root: "walk_menu (PyList (map py_of_entry es)) (RadioMenuMode []) =
           Inr (RadioMenuMode (map spec_node es))"
    using assms by (rule walk_menu_root)
  have built: "get_menu_items (m\<lparr>menu := Some (PyList (map py_of_entry es))\<rparr>) =
           Inr (RadioMenuMode (map spec_node es))"
    using root by (cases es) (simp_all add: get_menu_items_def del: walk_menu.simps)
  have nth: "\<forall>i<length es. menu_items (RadioMenuMode (map spec_node es)) ! i = spec_node (es ! i)"
    by simp
  have sub: "walk_menu (PyList (map py_of_entry es)) (RadioSubmenu t []) =
           Inr (RadioSubmenu t (map spec_node es @ [back_item]))"
    using assms by (rule walk_menu_submenu)
  have example: "get_menu_items
          (m\<lparr>menu := Some (PyList [PyTuple [PyStr ''Play'', PyFunc play_action],
                            PyTuple [PyStr ''Settings'',
                              PyList [PyTuple [PyStr ''Volume'', PyFunc vol_action]]]])\<rparr>) =
           Inr (RadioMenuMode
                 [RadioMenuItem (PyStr ''Play'') (Target (PyFunc play_action)),
                  RadioSubmenu (PyStr ''Settings'')
                    [RadioMenuItem (PyStr ''Volume'') (Target (PyFunc vol_action)),
                     RadioMenuItem (PyStr ''Back'') GoToParent]])"
    by (simp add: get_menu_items_def unpack2_def add_back_item_def back_item_def)
  show ?thesis using root built nth sub example by blast
qed

theorem walk_menu_order_witness:
  "list_all wf_entry
     [Branch ''Source'' [Leaf ''FM'' (PyInt 1), Leaf ''Web'' (PyInt 2)], Leaf ''Off'' PyNone]
   \<and> walk_menu
        (PyList [PyTuple [PyStr ''Source'',
                   PyList [PyTuple [PyStr ''FM'', PyInt 1], PyTuple [PyStr ''Web'', PyInt 2]]],
                 PyTuple [PyStr ''Off'', PyNone]])
        (RadioMenuMode []) =
      Inr (RadioMenuMode
            [RadioSubmenu (PyStr ''Source'')
               [RadioMenuItem (PyStr ''FM'') (Target (PyInt 1)),
                RadioMenuItem (PyStr ''Web'') (Target (PyInt 2)),
                RadioMenuItem (PyStr ''Back'') GoToParent],
             RadioMenuItem (PyStr ''Off'') (Target PyNone)])"
proof -
  let ?es = "[Branch ''Source'' [Leaf ''FM'' (PyInt 1), Leaf ''Web'' (PyInt 2)], Leaf ''Off'' PyNone]"
  have wf: "list_all wf_entry ?es" by simp
  from walk_menu_order [OF wf] have
    "walk_menu (PyList (map py_of_entry ?es)) (RadioMenuMode []) =
       Inr (RadioMenuMode (map spec_node ?es))"
    by blast
  with wf show ?thesis by (simp add: back_item_def del: walk_menu.simps)
qed

text \<open>
  C3. With an empty specification (\<^verbatim>\<open>[]\<close>) or an absent one (\<^verbatim>\<open>None\<close>) the menu
  that is built, and that \<^verbatim>\<open>build_menu\<close> stores, is a Root with no children, so
  with no "Back" item either.
\<close>

theorem get_menu_items_empty:
  "get_menu_items (m\<lparr>menu := Some (PyList [])\<rparr>) = Inr (RadioMenuMode [])
   \<and> get_menu_items (m\<lparr>menu := Some PyNone\<rparr>) = Inr (RadioMenuMode [])
   \<and> build_menu (m\<lparr>menu := Some (PyList [])\<rparr>) =
       Inr (m\<lparr>menu := Some (PyList []), modemenu := Some (RadioMenuMode [])\<rparr>)
   \<and> build_menu (m\<lparr>menu := Some PyNone\<rparr>) =
       Inr (m\<lparr>menu := Some PyNone, modemenu := Some (RadioMenuMode [])\<rparr>)
   \<and> menu_items (RadioMenuMode []) = []"
  by (simp add: get_menu_items_def build_menu_def)

text \<open>
  C4, as stated, fails: the builder validates nothing. A target that is an integer
  becomes the action of an Item; a nested list whose element is the string
  \<^verbatim>\<open>"ab"\<close> is unpacked into the label \<^verbatim>\<open>"a"\<close> and the target \<^verbatim>\<open>"b"\<close>; and a
  nested list whose element is an integer raises \<open>TypeError\<close>.
\<close>

theorem walk_menu_accepts_any_target:
  "get_menu_items (init (Some (PyList [PyTuple [PyStr ''Volume'', PyInt 5]])) None PyNone None) =
     Inr (RadioMenuMode [RadioMenuItem (PyStr ''Volume'') (Target (PyInt 5))])
   \<and> get_menu_items
        (init (Some (PyList [PyTuple [PyStr ''X'', PyList [PyStr ''ab'']]])) None PyNone None) =
     Inr (RadioMenuMode [RadioSubmenu (PyStr ''X'')
            [RadioMenuItem (PyStr ''a'') (Target (PyStr ''b'')),
             RadioMenuItem (PyStr ''Back'') GoToParent]])
   \<and> get_menu_items
        (init (Some (PyList [PyTuple [PyStr ''X'', PyList [PyInt 7]]])) None PyNone None) =
     Inl TypeError"
  by (simp add: get_menu_items_def init_def unpack2_def add_back_item_def back_item_def)

text \<open>
  C4, amended. The builder never raises \<open>MalformedMenuSpec\<close>. A target that is not a
  list is taken as the action of an Item, whatever its value, and the loop goes on. When
  the loop reaches an entry that cannot be unpacked into two values, after well-formed
  entries, the build ends with the exception of the unpacking, \<open>TypeError\<close> or
  \<open>ValueError\<close>, and returns no tree.
\<close>

theorem walk_menu_no_validation:
  "walk_menu spec parent \<noteq> Inl MalformedMenuSpec
   \<and> (\<not> is_list target \<and> is_container parent \<longrightarrow>
        walk_items (PyTuple [label, target] # rest) parent =
        walk_items rest (append_items parent [RadioMenuItem label (Target target)]))
   \<and> (list_all wf_entry es \<and> is_container parent \<and> unpack2 entry = Inl err \<longrightarrow>
        walk_menu (PyList (map py_of_entry es @ entry # rest)) parent = Inl err
        \<and> (err = TypeError \<or> err = ValueError))"
proof -
  have a: "walk_menu spec parent \<noteq> Inl MalformedMenuSpec"
    using walk_errors(1) [of spec parent MalformedMenuSpec] by auto
  have b: "walk_items (PyTuple [label, target] # rest) parent =
        walk_items rest (append_items parent [RadioMenuItem label (Target target)])"
    if "\<not> is_list target" "is_container parent"
    using that by (simp add: unpack2_def add_item_append_items)
  have c: "walk_menu (PyList (map py_of_entry es @ entry # rest)) parent = Inl err
        \<and> (err = TypeError \<or> err = ValueError)"
    if "list_all wf_entry es" "is_container parent" "unpack2 entry = Inl err"
    using that walk_items_unpack_error [of es parent entry err rest] unpack2_error [of entry err]
    by simp
  show ?thesis using a b c by blast
qed

theorem walk_menu_no_validation_witness:
  "\<not> is_list (PyInt 5) \<and> is_container (RadioMenuMode [])
   \<and> walk_items [PyTuple [PyStr ''Volume'', PyInt 5]] (RadioMenuMode []) =
       Inr (RadioMenuMode [RadioMenuItem (PyStr ''Volume'') (Target (PyInt 5))])
   \<and> list_all wf_entry [Leaf ''Play'' (PyFunc 0)]
   \<and> unpack2 (PyInt 7) = Inl TypeError
   \<and> walk_menu (PyList [PyTuple [PyStr ''Play'', PyFunc 0], PyInt 7]) (RadioMenuMode []) =
       Inl TypeError
   \<and> walk_menu (PyList [PyTuple [PyStr ''Play'', PyFunc 0], PyInt 7]) (RadioMenuMode []) \<noteq>
       Inl MalformedMenuSpec"
proof -
  have pre: "\<not> is_list (PyInt 5)" "is_container (RadioMenuMode [])"
    "list_all wf_entry [Leaf ''Play'' (PyFunc 0)]" "unpack2 (PyInt 7) = Inl TypeError"
    by (simp_all add: unpack2_def)
  note inst = walk_menu_no_validation
    [where spec = "PyList [PyTuple [PyStr ''Play'', PyFunc 0], PyInt 7]"
       and parent = "RadioMenuMode []" and target = "PyInt 5" and label = "PyStr ''Volume''"
       and rest = "[]" and es = "[Leaf ''Play'' (PyFunc 0)]" and entry = "PyInt 7"
       and err = TypeError]
  from inst pre have
    "walk_items [PyTuple [PyStr ''Volume'', PyInt 5]] (RadioMenuMode []) =
       walk_items [] (append_items (RadioMenuMode []) [RadioMenuItem (PyStr ''Volume'') (Target (PyInt 5))])"
    "walk_menu (PyList (map py_of_entry [Leaf ''Play'' (PyFunc 0)] @ [PyInt 7])) (RadioMenuMode []) =
       Inl TypeError"
    "walk_menu (PyList [PyTuple [PyStr ''Play'', PyFunc 0], PyInt 7]) (RadioMenuMode []) \<noteq>
       Inl MalformedMenuSpec"
    by blast+
  with pre show ?thesis by (simp del: walk_menu.simps walk_items.simps(2))
qed

section \<open>The sanitizer\<close>

lemma nfkd_sample_ascii: "list_all is_ascii u \<Longrightarrow> nfkd_sample u = u"
  by (induction u) (auto simp: nfkd_sample_def decompose_sample_def is_ascii_def)

subsection \<open>The code against the specification's function\<close>

lemma remove_accents_items_unicode:
  assumes "\<And>v. v \<in> snd ` set kvs \<Longrightarrow>
      remove_accents nfkd (py_unicode v) = Inr (py_str (spec_sanitize nfkd v))"
  shows "remove_accents_items nfkd (map (\<lambda>(key, v). (key, py_unicode v)) kvs) =
         Inr (map (\<lambda>(key, v). (key, py_str (spec_sanitize nfkd v))) kvs)"
  using assms
proof (induction kvs)
  case Nil
  show ?case by simp
next
  case (Cons kv kvs)
  obtain key v where kv: "kv = (key, v)" by (cases kv)
  have "remove_accents nfkd (py_unicode v) = Inr (py_str (spec_sanitize nfkd v))"
    using Cons.prems [of v] kv by simp
  moreover have "remove_accents_items nfkd (map (\<lambda>(key, v). (key, py_unicode v)) kvs) =
         Inr (map (\<lambda>(key, v). (key, py_str (spec_sanitize nfkd v))) kvs)"
    using Cons.prems by (intro Cons.IH) auto
  ultimately show ?case by (simp add: kv)
qed

lemma remove_accents_unicode:
  "remove_accents nfkd (py_unicode x) = Inr (py_str (spec_sanitize nfkd x))"
proof (induction x)
  case (Text u)
  show ?case by (simp add: encode_ascii_ignore_def)
next
  case (Mapping kvs)
  have "remove_accents_items nfkd (map (\<lambda>(key, v). (key, py_unicode v)) kvs) =
         Inr (map (\<lambda>(key, v). (key, py_str (spec_sanitize nfkd v))) kvs)"
    by (rule remove_accents_items_unicode) (use Mapping in force)
  then show ?case by (simp add: comp_def case_prod_unfold)
qed

lemma mapping_keys_sanitize: "mapping_keys (spec_sanitize nfkd x) = mapping_keys x"
  by (cases x) (auto simp: case_prod_unfold)

lemma unicode_of_str_ascii:
  "list_all is_ascii u \<Longrightarrow> unicode_of_str (map char_of u) = Inr u"
  by (induction u) (auto simp: unicode_of_str_def is_ascii_def split: if_splits)

lemma remove_accents_items_str:
  assumes "\<And>v. v \<in> snd ` set kvs \<Longrightarrow> all_ascii v \<Longrightarrow>
      remove_accents nfkd (py_str v) = Inr (py_str (spec_sanitize nfkd v))"
    and "list_all (\<lambda>(key, v). all_ascii v) kvs"
  shows "remove_accents_items nfkd (map (\<lambda>(key, v). (key, py_str v)) kvs) =
         Inr (map (\<lambda>(key, v). (key, py_str (spec_sanitize nfkd v))) kvs)"
  using assms
proof (induction kvs)
  case Nil
  show ?case by simp
next
  case (Cons kv kvs)
  obtain key v where kv: "kv = (key, v)" by (cases kv)
  have "all_ascii v" using Cons.prems(2) kv by simp
  then have "remove_accents nfkd (py_str v) = Inr (py_str (spec_sanitize nfkd v))"
    using Cons.prems(1) [of v] kv by simp
  moreover have "remove_accents_items nfkd (map (\<lambda>(key, v). (key, py_str v)) kvs) =
         Inr (map (\<lambda>(key, v). (key, py_str (spec_sanitize nfkd v))) kvs)"
  proof (rule Cons.IH)
    show "remove_accents nfkd (py_str w) = Inr (py_str (spec_sanitize nfkd w))"
      if "w \<in> snd ` set kvs" "all_ascii w" for w
      using that Cons.prems(1) [of w] by auto
    show "list_all (\<lambda>(key, v). all_ascii v) kvs"
      using Cons.prems(2) by simp
  qed
  ultimately show ?case by (simp add: kv)
qed

lemma remove_accents_str:
  "all_ascii x \<Longrightarrow> remove_accents nfkd (py_str x) = Inr (py_str (spec_sanitize nfkd x))"
proof (induction x)
  case (Text u)
  then show ?case by (simp add: unicode_of_str_ascii encode_ascii_ignore_def)
next
  case (Mapping kvs)
  have ih: "remove_accents nfkd (py_str v) = Inr (py_str (spec_sanitize nfkd v))"
    if "v \<in> snd ` set kvs" "all_ascii v" for v
  proof -
    from that(1) obtain key where "(key, v) \<in> set kvs" by force
    then show ?thesis using Mapping.IH [of "(key, v)" v] that(2) by simp
  qed
  have "list_all (\<lambda>(key, v). all_ascii v) kvs" using Mapping.prems by simp
  with ih have "remove_accents_items nfkd (map (\<lambda>(key, v). (key, py_str v)) kvs) =
         Inr (map (\<lambda>(key, v). (key, py_str (spec_sanitize nfkd v))) kvs)"
    by (rule remove_accents_items_str)
  then show ?case by (simp add: comp_def case_prod_unfold)
qed

subsection \<open>Results are fixed points\<close>

lemma unicode_of_encode:
  "unicode_of_str (encode_ascii_ignore w) = Inr (filter is_ascii w)"
  unfolding encode_ascii_ignore_def
  by (rule unicode_of_str_ascii) (simp add: list_all_iff)

lemma remove_accents_encoded:
  assumes "\<forall>u. list_all is_ascii u \<longrightarrow> nfkd u = u"
  shows "remove_accents nfkd (PyStr (encode_ascii_ignore w)) = Inr (PyStr (encode_ascii_ignore w))"
proof -
  have "nfkd (filter is_ascii w) = filter is_ascii w"
    using assms by (simp add: list_all_iff)
  then show ?thesis
    by (simp add: unicode_of_encode) (simp add: encode_ascii_ignore_def)
qed

lemma remove_accents_fixed:
  "\<forall>u. list_all is_ascii u \<longrightarrow> nfkd u = u \<Longrightarrow>
     remove_accents nfkd x = Inr y \<Longrightarrow> remove_accents nfkd y = Inr y"
  "\<forall>u. list_all is_ascii u \<longrightarrow> nfkd u = u \<Longrightarrow>
     remove_accents_items nfkd kvs = Inr kvs' \<Longrightarrow> remove_accents_items nfkd kvs' = Inr kvs'"
proof (induction nfkd x and nfkd kvs arbitrary: y and kvs'
    rule: remove_accents_remove_accents_items.induct)
  case (1 nfkd kvs)
  then show ?case by (auto split: sum.splits)
next
  case (2 nfkd s)
  then show ?case
    using remove_accents_encoded [of nfkd] by (auto split: sum.splits)
next
  case (3 nfkd u)
  then show ?case using remove_accents_encoded [of nfkd] by auto
next
  case (11 nfkd key v kvs)
  then show ?case by (auto split: sum.splits)
qed simp_all

subsection \<open>The exceptions of the sanitizer\<close>

lemma remove_accents_errors:
  "remove_accents nfkd x = Inl err \<Longrightarrow> err = TypeError \<or> err = UnicodeDecodeError"
  "remove_accents_items nfkd kvs = Inl err \<Longrightarrow> err = TypeError \<or> err = UnicodeDecodeError"
proof (induction nfkd x and nfkd kvs rule: remove_accents_remove_accents_items.induct)
  case (2 nfkd s)
  then show ?case by (auto simp: unicode_of_str_def split: sum.splits if_splits)
qed (auto split: sum.splits)

lemma remove_accents_invalid:
  "\<not> valid_data x \<Longrightarrow> \<exists>err. remove_accents nfkd x = Inl err"
  "\<not> list_all (\<lambda>(key, v). valid_data v) kvs \<Longrightarrow> \<exists>err. remove_accents_items nfkd kvs = Inl err"
proof (induction nfkd x and nfkd kvs rule: remove_accents_remove_accents_items.induct)
  case (11 nfkd key v kvs)
  then show ?case by (auto split: sum.splits)
qed (auto split: sum.splits)

lemma remove_accents_non_ascii_str:
  "\<not> list_all (\<lambda>c. is_ascii (of_char c)) s \<Longrightarrow>
   remove_accents nfkd (PyStr s) = Inl UnicodeDecodeError"
  by (simp add: unicode_of_str_def)

text \<open>
  On text that is ASCII already the sanitizer returns the same characters, as a byte
  string, provided the normaliser leaves ASCII text alone, as NFKD does.
\<close>

lemma remove_accents_ascii_identity:
  assumes "\<forall>u. list_all is_ascii u \<longrightarrow> nfkd u = u"
  shows "list_all (\<lambda>c. is_ascii (of_char c)) s \<Longrightarrow> remove_accents nfkd (PyStr s) = Inr (PyStr s)"
    and "list_all is_ascii u \<Longrightarrow> remove_accents nfkd (PyUnicode u) = Inr (PyStr (map char_of u))"
proof -
  show "remove_accents nfkd (PyUnicode u) = Inr (PyStr (map char_of u))" if "list_all is_ascii u"
    using that assms by (simp add: encode_ascii_ignore_def list_all_iff)
  show "remove_accents nfkd (PyStr s) = Inr (PyStr s)" if s: "list_all (\<lambda>c. is_ascii (of_char c)) s"
  proof -
    have "list_all is_ascii (map of_char s)" using s by (simp add: list_all_iff)
    then have "nfkd (map of_char s) = map of_char s" using assms by blast
    then show ?thesis
      using s by (simp add: unicode_of_str_def encode_ascii_ignore_def list_all_iff comp_def)
  qed
qed

section \<open>Claims about the sanitizer\<close>

text \<open>
  C5. On a mapping the sanitizer is applied to every value, keys and structure kept; on
  text the result is the NFKD form with every code point outside the 7-bit range
  dropped: for every input with \<^verbatim>\<open>unicode\<close> text, and for every input with byte
  strings that are ASCII, the code returns the value the specification's function
  gives, as byte strings. With a normaliser that decomposes the two accented letters as
  NFKD does, the text c, a, f, U+00E9 gives "cafe", and the mapping of "a" to the text
  D, U+00E9, j, U+00E0, space, v, u and of "b" to "plain" gives the mapping of "a" to
  "Deja vu" and of "b" to "plain".
\<close>

theorem remove_accents_sanitizes:
  "remove_accents nfkd (py_unicode x) = Inr (py_str (spec_sanitize nfkd x))
   \<and> mapping_keys (spec_sanitize nfkd x) = mapping_keys x
   \<and> (all_ascii x \<longrightarrow> remove_accents nfkd (py_str x) = Inr (py_str (spec_sanitize nfkd x)))
   \<and> (nfkd [0x63, 0x61, 0x66, 0xE9] = [0x63, 0x61, 0x66, 0x65, 0x301] \<longrightarrow>
        remove_accents nfkd (PyUnicode [0x63, 0x61, 0x66, 0xE9]) = Inr (PyStr ''cafe''))
   \<and> (nfkd [0x44, 0xE9, 0x6A, 0xE0, 0x20, 0x76, 0x75] =
          [0x44, 0x65, 0x301, 0x6A, 0x61, 0x300, 0x20, 0x76, 0x75]
        \<and> nfkd [0x70, 0x6C, 0x61, 0x69, 0x6E] = [0x70, 0x6C, 0x61, 0x69, 0x6E] \<longrightarrow>
        remove_accents nfkd
          (PyDict [(PyStr ''a'', PyUnicode [0x44, 0xE9, 0x6A, 0xE0, 0x20, 0x76, 0x75]),
                   (PyStr ''b'', PyUnicode [0x70, 0x6C, 0x61, 0x69, 0x6E])]) =
        Inr (PyDict [(PyStr ''a'', PyStr ''Deja vu''), (PyStr ''b'', PyStr ''plain'')]))"
proof -
  have cafe: "encode_ascii_ignore [0x63, 0x61, 0x66, 0x65, 0x301] = ''cafe''"
    by (simp add: encode_ascii_ignore_def is_ascii_def char_of_def bit_Suc_0_iff)
  have deja: "encode_ascii_ignore [0x44, 0x65, 0x301, 0x6A, 0x61, 0x300, 0x20, 0x76, 0x75] = ''Deja vu''"
    by (simp add: encode_ascii_ignore_def is_ascii_def char_of_def bit_Suc_0_iff)
  have plain: "encode_ascii_ignore [0x70, 0x6C, 0x61, 0x69, 0x6E] = ''plain''"
    by (simp add: encode_ascii_ignore_def is_ascii_def char_of_def bit_Suc_0_iff)
  show ?thesis
    using remove_accents_unicode [of nfkd x] mapping_keys_sanitize [of nfkd x]
      remove_accents_str [of x nfkd]
    by (simp add: cafe deja plain)
qed

theorem remove_accents_sanitizes_witness:
  "all_ascii (Text [0x4F, 0x4B])
   \<and> remove_accents nfkd_sample (PyStr ''OK'') = Inr (PyStr ''OK'')
   \<and> nfkd_sample [0x63, 0x61, 0x66, 0xE9] = [0x63, 0x61, 0x66, 0x65, 0x301]
   \<and> remove_accents nfkd_sample (PyUnicode [0x63, 0x61, 0x66, 0xE9]) = Inr (PyStr ''cafe'')
   \<and> remove_accents nfkd_sample
        (PyDict [(PyStr ''a'', PyUnicode [0x44, 0xE9, 0x6A, 0xE0, 0x20, 0x76, 0x75]),
                 (PyStr ''b'', PyUnicode [0x70, 0x6C, 0x61, 0x69, 0x6E])]) =
      Inr (PyDict [(PyStr ''a'', PyStr ''Deja vu''), (PyStr ''b'', PyStr ''plain'')])"
proof -
  have ok: "all_ascii (Text [0x4F, 0x4B])" by (simp add: is_ascii_def)
  have n1: "nfkd_sample [0x63, 0x61, 0x66, 0xE9] = [0x63, 0x61, 0x66, 0x65, 0x301]"
    by (simp add: nfkd_sample_def decompose_sample_def)
  have n2: "nfkd_sample [0x44, 0xE9, 0x6A, 0xE0, 0x20, 0x76, 0x75] =
          [0x44, 0x65, 0x301, 0x6A, 0x61, 0x300, 0x20, 0x76, 0x75]"
    by (simp add: nfkd_sample_def decompose_sample_def)
  have n3: "nfkd_sample [0x70, 0x6C, 0x61, 0x69, 0x6E] = [0x70, 0x6C, 0x61, 0x69, 0x6E]"
    by (simp add: nfkd_sample_def decompose_sample_def)
  have n4: "nfkd_sample [0x4F, 0x4B] = [0x4F, 0x4B]"
    by (simp add: nfkd_sample_def decompose_sample_def)
  note inst = remove_accents_sanitizes [of nfkd_sample "Text [0x4F, 0x4B]"]
  from inst ok have "remove_accents nfkd_sample (py_str (Text [0x4F, 0x4B])) =
      Inr (py_str (spec_sanitize nfkd_sample (Text [0x4F, 0x4B])))"
    by blast
  then have a: "remove_accents nfkd_sample (PyStr ''OK'') = Inr (PyStr ''OK'')"
    by (simp add: n4 is_ascii_def char_of_def bit_Suc_0_iff del: remove_accents.simps)
  from inst n1 have b: "remove_accents nfkd_sample (PyUnicode [0x63, 0x61, 0x66, 0xE9]) =
      Inr (PyStr ''cafe'')"
    by blast
  from inst n2 n3 have c: "remove_accents nfkd_sample
        (PyDict [(PyStr ''a'', PyUnicode [0x44, 0xE9, 0x6A, 0xE0, 0x20, 0x76, 0x75]),
                 (PyStr ''b'', PyUnicode [0x70, 0x6C, 0x61, 0x69, 0x6E])]) =
      Inr (PyDict [(PyStr ''a'', PyStr ''Deja vu''), (PyStr ''b'', PyStr ''plain'')])"
    by blast
  from ok a n1 b c show ?thesis by blast
qed

text \<open>
  C6. The sanitizer is idempotent: whatever it returns, it returns again when applied to
  that result, and on every input of text or nested mappings of text it does return.
  The normaliser is taken to leave ASCII text as it is, which NFKD does.
\<close>

theorem remove_accents_idempotent:
  assumes "\<forall>u. list_all is_ascii u \<longrightarrow> nfkd u = u"
  shows "(remove_accents nfkd x = Inr y \<longrightarrow> remove_accents nfkd y = Inr y)
     \<and> (\<exists>z. remove_accents nfkd (py_unicode d) = Inr z \<and> remove_accents nfkd z = Inr z)"
  using assms remove_accents_fixed(1) [of nfkd] remove_accents_unicode [of nfkd d]
  by blast

theorem remove_accents_idempotent_witness:
  "remove_accents nfkd_sample
     (PyDict [(PyStr ''title'', PyUnicode [0x63, 0x61, 0x66, 0xE9]),
              (PyStr ''more'', PyDict [(PyStr ''artist'', PyStr ''abc'')])]) =
   Inr (PyDict [(PyStr ''title'', PyStr ''cafe''),
                (PyStr ''more'', PyDict [(PyStr ''artist'', PyStr ''abc'')])])
   \<and> remove_accents nfkd_sample
     (PyDict [(PyStr ''title'', PyStr ''cafe''),
              (PyStr ''more'', PyDict [(PyStr ''artist'', PyStr ''abc'')])]) =
   Inr (PyDict [(PyStr ''title'', PyStr ''cafe''),
                (PyStr ''more'', PyDict [(PyStr ''artist'', PyStr ''abc'')])])"
proof -
  have ascii: "\<forall>u. list_all is_ascii u \<longrightarrow> nfkd_sample u = u"
    by (simp add: nfkd_sample_ascii)
  have first: "remove_accents nfkd_sample
     (PyDict [(PyStr ''title'', PyUnicode [0x63, 0x61, 0x66, 0xE9]),
              (PyStr ''more'', PyDict [(PyStr ''artist'', PyStr ''abc'')])]) =
   Inr (PyDict [(PyStr ''title'', PyStr ''cafe''),
                (PyStr ''more'', PyDict [(PyStr ''artist'', PyStr ''abc'')])])"
    by (simp add: nfkd_sample_def decompose_sample_def unicode_of_str_def
        encode_ascii_ignore_def is_ascii_def char_of_def bit_Suc_0_iff)
  from remove_accents_idempotent [OF ascii] first show ?thesis by blast
qed

text \<open>
  C7, at the failing input: the \<^verbatim>\<open>str\<close> that holds c, a, f and U+00E9 in UTF-8
  (the bytes 0xC3 0xA9) is text, and the sanitizer raises \<open>UnicodeDecodeError\<close> on it,
  whatever the normaliser, since \<^verbatim>\<open>unicode(data)\<close> decodes with the ASCII codec.
\<close>

theorem remove_accents_str_decode_error:
  "remove_accents nfkd (PyStr [CHR ''c'', CHR ''a'', CHR ''f'', CHR 0xC3, CHR 0xA9]) =
     Inl UnicodeDecodeError"
  by (simp add: unicode_of_str_def is_ascii_def)

text \<open>
  C8, as stated, fails: on the integer 5 the sanitizer raises \<open>TypeError\<close>, the
  exception of the normalisation step, and not \<open>UnsupportedInputType\<close>.
\<close>

theorem remove_accents_int:
  "remove_accents id (PyInt 5) = Inl TypeError
   \<and> remove_accents id (PyInt 5) \<noteq> Inl UnsupportedInputType"
  by simp

text \<open>
  C8, amended. An input that is neither text nor a mapping raises \<open>TypeError\<close>. An input
  that is not text or a nested mapping of text raises \<open>TypeError\<close> or, when a byte string
  with a byte above 127 is reached first, \<open>UnicodeDecodeError\<close>. Nothing is coerced and
  the sanitizer never raises \<open>UnsupportedInputType\<close>.
\<close>

theorem remove_accents_unsupported:
  "(\<not> is_text x \<and> \<not> is_dict x \<longrightarrow> remove_accents nfkd x = Inl TypeError)
   \<and> (\<not> valid_data x \<longrightarrow>
        remove_accents nfkd x = Inl TypeError \<or> remove_accents nfkd x = Inl UnicodeDecodeError)
   \<and> remove_accents nfkd x \<noteq> Inl UnsupportedInputType"
proof -
  have a: "remove_accents nfkd x = Inl TypeError" if "\<not> is_text x" "\<not> is_dict x"
    using that by (cases x) auto
  have b: "remove_accents nfkd x = Inl TypeError \<or> remove_accents nfkd x = Inl UnicodeDecodeError"
    if "\<not> valid_data x"
    using remove_accents_invalid(1) [OF that, of nfkd] remove_accents_errors(1) [of nfkd x]
    by auto
  have c: "remove_accents nfkd x \<noteq> Inl UnsupportedInputType"
    using remove_accents_errors(1) [of nfkd x UnsupportedInputType] by auto
  show ?thesis using a b c by blast
qed

theorem remove_accents_unsupported_witness:
  "\<not> is_text (PyList [PyUnicode [0x61]]) \<and> \<not> is_dict (PyList [PyUnicode [0x61]])
   \<and> remove_accents id (PyList [PyUnicode [0x61]]) = Inl TypeError
   \<and> \<not> valid_data (PyDict [(PyStr ''volume'', PyInt 5)])
   \<and> remove_accents id (PyDict [(PyStr ''volume'', PyInt 5)]) = Inl TypeError"
proof -
  have pre: "\<not> is_text (PyList [PyUnicode [0x61]])" "\<not> is_dict (PyList [PyUnicode [0x61]])"
    "\<not> valid_data (PyDict [(PyStr ''volume'', PyInt 5)])"
    by simp_all
  have no_decode: "remove_accents id (PyDict [(PyStr ''volume'', PyInt 5)]) \<noteq> Inl UnicodeDecodeError"
    by simp
  from remove_accents_unsupported [of "PyList [PyUnicode [0x61]]" id] pre
  have a: "remove_accents id (PyList [PyUnicode [0x61]]) = Inl TypeError"
    by blast
  from remove_accents_unsupported [of "PyDict [(PyStr ''volume'', PyInt 5)]" id] pre no_decode
  have b: "remove_accents id (PyDict [(PyStr ''volume'', PyInt 5)]) = Inl TypeError"
    by blast
  from pre a b show ?thesis by blast
qed

section \<open>Claims about the LED\<close>

text \<open>
  The constructor tests the GPIO handle, \<^verbatim>\<open>toggle_led\<close> does not: with an LED pin
  and no handle the call raises.
\<close>

lemma toggle_led_no_handle:
  "pi m = None \<Longrightarrow> truthy (led_pin m) \<Longrightarrow> toggle_led state m = Inl AttributeError"
  by (simp add: toggle_led_def)

text \<open>
  C9. On a mode with a GPIO handle and an LED pin that counts as configured (a true
  value), \<^verbatim>\<open>toggle_led(True)\<close> then \<^verbatim>\<open>toggle_led(False)\<close> add exactly two calls
  to the handle, the write of 1 and then the write of 0 to that pin. On a mode with no
  LED pin, any sequence of \<^verbatim>\<open>toggle_led\<close> calls returns without an exception and
  leaves the mode, and so the calls on the handle, as they were.
\<close>

theorem toggle_led_writes:
  "(pi m = Some calls \<and> truthy (led_pin m) \<longrightarrow>
      (\<exists>m'. toggle_leds [True, False] m = Inr m'
         \<and> gpio_calls m' = gpio_calls m @ [Write (led_pin m) 1, Write (led_pin m) 0]
         \<and> writes m' = writes m @ [Write (led_pin m) 1, Write (led_pin m) 0]))
   \<and> (led_pin m = PyNone \<longrightarrow> toggle_leds states m = Inr m)"
proof -
  have "toggle_leds states m = Inr m" if "led_pin m = PyNone"
    using that by (induction states) (auto simp: toggle_led_def)
  then show ?thesis
    by (auto simp: toggle_led_def gpio_calls_def writes_def int_of_state_def)
qed

theorem toggle_led_writes_witness:
  "pi (init None (Some []) (PyInt 17) None) = Some [SetMode (PyInt 17) OUTPUT]
   \<and> truthy (led_pin (init None (Some []) (PyInt 17) None))
   \<and> (\<exists>m'. toggle_leds [True, False] (init None (Some []) (PyInt 17) None) = Inr m'
         \<and> gpio_calls m' = [SetMode (PyInt 17) OUTPUT, Write (PyInt 17) 1, Write (PyInt 17) 0]
         \<and> writes m' = [Write (PyInt 17) 1, Write (PyInt 17) 0])
   \<and> led_pin (init None (Some []) PyNone None) = PyNone
   \<and> toggle_leds [True, False, True] (init None (Some []) PyNone None) =
       Inr (init None (Some []) PyNone None)"
proof -
  let ?m = "init None (Some []) (PyInt 17) None"
  let ?n = "init None (Some []) PyNone None"
  have pre: "pi ?m = Some [SetMode (PyInt 17) OUTPUT]" "truthy (led_pin ?m)"
    "led_pin ?n = PyNone"
    by (simp_all add: init_def)
  have vals: "gpio_calls ?m = [SetMode (PyInt 17) OUTPUT]" "writes ?m = []"
    "led_pin ?m = PyInt 17"
    by (simp_all add: init_def gpio_calls_def writes_def)
  from toggle_led_writes [of ?m "[SetMode (PyInt 17) OUTPUT]"] pre
  obtain m' where "toggle_leds [True, False] ?m = Inr m'"
    "gpio_calls m' = gpio_calls ?m @ [Write (led_pin ?m) 1, Write (led_pin ?m) 0]"
    "writes m' = writes ?m @ [Write (led_pin ?m) 1, Write (led_pin ?m) 0]"
    by blast
  then have a: "\<exists>m'. toggle_leds [True, False] ?m = Inr m'
         \<and> gpio_calls m' = [SetMode (PyInt 17) OUTPUT, Write (PyInt 17) 1, Write (PyInt 17) 0]
         \<and> writes m' = [Write (PyInt 17) 1, Write (PyInt 17) 0]"
    by (simp add: vals)
  from toggle_led_writes [of ?n _ "[True, False, True]"] pre
  have b: "toggle_leds [True, False, True] ?n = Inr ?n"
    by blast
  from pre a b show ?thesis by blast
qed

text \<open>
  C10. A mode constructed with \<^verbatim>\<open>led_pin = 0\<close> makes no call on the GPIO handle in
  its constructor, and \<^verbatim>\<open>toggle_led\<close> on it (as on any mode whose LED pin is 0)
  returns with the mode unchanged, so without a write, for either state: the same as
  with no pin given.
\<close>

theorem led_pin_zero:
  "pi (init menu0 pi0 (PyInt 0) q) = pi0
   \<and> toggle_led state (init menu0 pi0 (PyInt 0) q) = Inr (init menu0 pi0 (PyInt 0) q)
   \<and> toggle_led state (m\<lparr>led_pin := PyInt 0\<rparr>) = Inr (m\<lparr>led_pin := PyInt 0\<rparr>)
   \<and> pi (init menu0 pi0 PyNone q) = pi0
   \<and> toggle_led state (init menu0 pi0 PyNone q) = Inr (init menu0 pi0 PyNone q)"
  by (simp add: init_def toggle_led_def split: option.splits)

end
